theory Spec2Isabelle
  imports Complex_Main
begin

section \<open>SCOAP testability analysis (SCOAP.py)\<close>

text \<open>
  The function \<open>scoap\<close> of SCOAP.py, embedded as a pure function. Python dictionaries are
  association lists in insertion order, exceptions are values of type \<open>error\<close>, and every
  loop is a recursion over the list it iterates. Costs are Python floats that only ever
  hold sums of ones; they are modelled as reals, which is exact below \<open>2 ^ 53\<close>. The sets
  \<open>inputs\<close> and \<open>outputs\<close> are given as the lists in which Python iterates them. The
  report that \<open>scoap\<close> prints and saves is not part of the model.
\<close>

subsection \<open>Exceptions\<close>

datatype error = KeyError string | ValueError | IndexError

definition ebind :: "error + 'a \<Rightarrow> ('a \<Rightarrow> error + 'b) \<Rightarrow> error + 'b" where
  "ebind m f = (case m of Inl e \<Rightarrow> Inl e | Inr x \<Rightarrow> f x)"

text \<open>A \<open>for\<close> loop whose body may raise: the first exception ends the loop.\<close>

fun efold :: "('a \<Rightarrow> 's \<Rightarrow> error + 's) \<Rightarrow> 'a list \<Rightarrow> 's \<Rightarrow> error + 's" where
  "efold f [] s = Inr s"
| "efold f (x # xs) s = ebind (f x s) (efold f xs)"

subsection \<open>Dictionaries\<close>

type_synonym 'v dict = "(string \<times> 'v) list"

text \<open>\<open>d[k] = v\<close>: an existing key keeps its place, a new key goes to the end.\<close>

fun dict_set :: "'v dict \<Rightarrow> string \<Rightarrow> 'v \<Rightarrow> 'v dict" where
  "dict_set [] k v = [(k, v)]"
| "dict_set ((k', v') # d) k v =
     (if k' = k then (k, v) # d else (k', v') # dict_set d k v)"

text \<open>\<open>d[k]\<close> raises KeyError on a missing key.\<close>

definition dict_get :: "'v dict \<Rightarrow> string \<Rightarrow> error + 'v" where
  "dict_get d k = (case map_of d k of None \<Rightarrow> Inl (KeyError k) | Some v \<Rightarrow> Inr v)"

text \<open>\<open>k in d\<close>.\<close>

definition dict_has :: "'v dict \<Rightarrow> string \<Rightarrow> bool" where
  "dict_has d k = (map_of d k \<noteq> None)"

text \<open>The generator \<open>d[i] for i in ks\<close>, consumed from left to right.\<close>

fun lookups :: "'v dict \<Rightarrow> string list \<Rightarrow> error + 'v list" where
  "lookups d [] = Inr []"
| "lookups d (k # ks) =
     ebind (dict_get d k) (\<lambda>v. ebind (lookups d ks) (\<lambda>vs. Inr (v # vs)))"

text \<open>\<open>min\<close> and \<open>max\<close> raise ValueError on an empty sequence; \<open>sum\<close> of it is 0.\<close>

fun py_min :: "'a::linorder list \<Rightarrow> error + 'a" where
  "py_min [] = Inl ValueError"
| "py_min (x # xs) = Inr (fold min xs x)"

fun py_max :: "'a::linorder list \<Rightarrow> error + 'a" where
  "py_max [] = Inl ValueError"
| "py_max (x # xs) = Inr (fold max xs x)"

definition min_of :: "real dict \<Rightarrow> string list \<Rightarrow> error + real" where
  "min_of d ks = ebind (lookups d ks) py_min"

definition sum_of :: "real dict \<Rightarrow> string list \<Rightarrow> error + real" where
  "sum_of d ks = ebind (lookups d ks) (\<lambda>vs. Inr (sum_list vs))"

definition max_of :: "int dict \<Rightarrow> string list \<Rightarrow> error + int" where
  "max_of d ks = ebind (lookups d ks) py_max"

text \<open>\<open>d1[a] + d2[b]\<close>.\<close>

definition add2 :: "real dict \<Rightarrow> string \<Rightarrow> real dict \<Rightarrow> string \<Rightarrow> error + real" where
  "add2 d1 a d2 b = ebind (dict_get d1 a) (\<lambda>x. ebind (dict_get d2 b) (\<lambda>y. Inr (x + y)))"

text \<open>\<open>ins[0]\<close> raises IndexError on an empty list.\<close>

definition first_in :: "string list \<Rightarrow> error + string" where
  "first_in ins = (case ins of [] \<Rightarrow> Inl IndexError | i # _ \<Rightarrow> Inr i)"

subsection \<open>Floats with infinity\<close>

text \<open>The derived maps hold \<open>math.inf\<close> where an operand is absent.\<close>

datatype xreal = Fin real | PInf

fun xadd :: "xreal \<Rightarrow> xreal \<Rightarrow> xreal" where
  "xadd (Fin a) (Fin b) = Fin (a + b)"
| "xadd _ _ = PInf"

text \<open>\<open>d.get(n, math.inf)\<close>.\<close>

definition get_inf :: "real dict \<Rightarrow> string \<Rightarrow> xreal" where
  "get_inf d n = (case map_of d n of None \<Rightarrow> PInf | Some v \<Rightarrow> Fin v)"

subsection \<open>Netlist and metric maps\<close>

text \<open>A gate is the tuple (gate type, output net, input nets, name).\<close>

type_synonym gate = "string \<times> string \<times> string list \<times> string"

definition gate_out :: "gate \<Rightarrow> string" where
  "gate_out g = (case g of (gate_type, out, ins, name) \<Rightarrow> out)"

definition gate_ins :: "gate \<Rightarrow> string list" where
  "gate_ins g = (case g of (gate_type, out, ins, name) \<Rightarrow> ins)"

text \<open>
  A sequential cell is a dictionary with the keys \<open>'output'\<close> and \<open>'input'\<close> (both words
  are reserved in Isabelle, hence the suffix).
\<close>

record seq_cell =
  output_net :: string
  input_net :: string

record metrics =
  CC0 :: "real dict"
  CC1 :: "real dict"
  CO :: "real dict"
  SC0 :: "xreal dict"
  SC1 :: "xreal dict"
  SO :: "xreal dict"
  fwd_level :: "int dict"
  bkwd_level :: "int dict"

definition init :: metrics where
  "init = \<lparr>CC0 = [], CC1 = [], CO = [], SC0 = [], SC1 = [], SO = [],
           fwd_level = [], bkwd_level = []\<rparr>"

definition set_CC0 :: "string \<Rightarrow> real \<Rightarrow> metrics \<Rightarrow> metrics" where
  "set_CC0 k v s = s\<lparr>CC0 := dict_set (CC0 s) k v\<rparr>"

definition set_CC1 :: "string \<Rightarrow> real \<Rightarrow> metrics \<Rightarrow> metrics" where
  "set_CC1 k v s = s\<lparr>CC1 := dict_set (CC1 s) k v\<rparr>"

definition set_CO :: "string \<Rightarrow> real \<Rightarrow> metrics \<Rightarrow> metrics" where
  "set_CO k v s = s\<lparr>CO := dict_set (CO s) k v\<rparr>"

definition set_fwd :: "string \<Rightarrow> int \<Rightarrow> metrics \<Rightarrow> metrics" where
  "set_fwd k v s = s\<lparr>fwd_level := dict_set (fwd_level s) k v\<rparr>"

definition set_bkwd :: "string \<Rightarrow> int \<Rightarrow> metrics \<Rightarrow> metrics" where
  "set_bkwd k v s = s\<lparr>bkwd_level := dict_set (bkwd_level s) k v\<rparr>"

subsection \<open>Seeding of primary inputs and sequential cells (lines 20 to 31)\<close>

definition seed_net :: "string \<Rightarrow> metrics \<Rightarrow> metrics" where
  "seed_net i s = set_fwd i 0 (set_CC1 i 1 (set_CC0 i 1 s))"

definition seed_inputs :: "string list \<Rightarrow> metrics \<Rightarrow> metrics" where
  "seed_inputs inputs s = fold seed_net inputs s"

definition seed_seq :: "seq_cell list \<Rightarrow> metrics \<Rightarrow> metrics" where
  "seed_seq seq_cells s = fold (\<lambda>c. seed_net (output_net c)) seq_cells s"

subsection \<open>Forward propagation (lines 34 to 69)\<close>

text \<open>
  The branch on the gate type. Each assignment is made before the next right-hand side
  is read, as in the source, so a gate that lists its own output among its inputs reads
  the value it has just written.
\<close>

definition cc_gate :: "string \<Rightarrow> string \<Rightarrow> string list \<Rightarrow> metrics \<Rightarrow> error + metrics" where
  "cc_gate gate_type out ins s =
    (if gate_type = ''AND'' then
       ebind (min_of (CC0 s) ins) (\<lambda>m. let s1 = set_CC0 out (m + 1) s in
       ebind (sum_of (CC1 s1) ins) (\<lambda>t. Inr (set_CC1 out (t + 1) s1)))
     else if gate_type = ''NAND'' then
       ebind (sum_of (CC1 s) ins) (\<lambda>t. let s1 = set_CC0 out (t + 1) s in
       ebind (min_of (CC0 s1) ins) (\<lambda>m. Inr (set_CC1 out (m + 1) s1)))
     else if gate_type = ''OR'' then
       ebind (sum_of (CC0 s) ins) (\<lambda>t. let s1 = set_CC0 out (t + 1) s in
       ebind (min_of (CC1 s1) ins) (\<lambda>m. Inr (set_CC1 out (m + 1) s1)))
     else if gate_type = ''NOR'' then
       ebind (min_of (CC1 s) ins) (\<lambda>m. let s1 = set_CC0 out (m + 1) s in
       ebind (sum_of (CC0 s1) ins) (\<lambda>t. Inr (set_CC1 out (t + 1) s1)))
     else if gate_type = ''NOT'' then
       ebind (first_in ins) (\<lambda>i.
       ebind (dict_get (CC1 s) i) (\<lambda>v. let s1 = set_CC0 out (v + 1) s in
       ebind (dict_get (CC0 s1) i) (\<lambda>w. Inr (set_CC1 out (w + 1) s1))))
     else if gate_type = ''BUF'' then
       ebind (first_in ins) (\<lambda>i.
       ebind (dict_get (CC0 s) i) (\<lambda>v. let s1 = set_CC0 out (v + 1) s in
       ebind (dict_get (CC1 s1) i) (\<lambda>w. Inr (set_CC1 out (w + 1) s1))))
     else if gate_type = ''XOR'' then
       (case ins of
          [a, b] \<Rightarrow>
            ebind (add2 (CC0 s) a (CC0 s) b) (\<lambda>x.
            ebind (add2 (CC1 s) a (CC1 s) b) (\<lambda>y. let s1 = set_CC0 out (min x y + 1) s in
            ebind (add2 (CC0 s1) a (CC1 s1) b) (\<lambda>x'.
            ebind (add2 (CC1 s1) a (CC0 s1) b) (\<lambda>y'. Inr (set_CC1 out (min x' y' + 1) s1)))))
        | _ \<Rightarrow> Inr s)
     else if gate_type = ''XNOR'' then
       (case ins of
          [a, b] \<Rightarrow>
            ebind (add2 (CC0 s) a (CC0 s) b) (\<lambda>x.
            ebind (add2 (CC1 s) a (CC1 s) b) (\<lambda>y. let s1 = set_CC1 out (min x y + 1) s in
            ebind (add2 (CC0 s1) a (CC1 s1) b) (\<lambda>x'.
            ebind (add2 (CC1 s1) a (CC0 s1) b) (\<lambda>y'. Inr (set_CC0 out (min x' y' + 1) s1)))))
        | _ \<Rightarrow> Inr s)
     else Inr (set_CC1 out 1 (set_CC0 out 1 s)))"

text \<open>The body of the loop over \<open>gates\<close>, run when the guard holds.\<close>

definition eval_gate :: "string \<Rightarrow> string \<Rightarrow> string list \<Rightarrow> metrics \<Rightarrow> error + metrics" where
  "eval_gate gate_type out ins s =
     ebind (cc_gate gate_type out ins s) (\<lambda>s1.
     ebind (max_of (fwd_level s1) ins) (\<lambda>m. Inr (set_fwd out (m + 1) s1)))"

text \<open>One iteration of the loop, with its guard \<open>all(i in CC0 for i in ins)\<close>.\<close>

definition fwd_gate :: "gate \<Rightarrow> metrics \<Rightarrow> error + metrics" where
  "fwd_gate g s =
    (case g of (gate_type, out, ins, name) \<Rightarrow>
       if list_all (dict_has (CC0 s)) ins then eval_gate gate_type out ins s else Inr s)"

definition forward :: "gate list \<Rightarrow> metrics \<Rightarrow> error + metrics" where
  "forward gates s = efold fwd_gate gates s"

subsection \<open>Backward propagation (lines 72 to 93)\<close>

definition seed_out :: "string \<Rightarrow> metrics \<Rightarrow> metrics" where
  "seed_out i s = set_bkwd i 0 (set_CO i 0 s)"

definition seed_outputs :: "string list \<Rightarrow> metrics \<Rightarrow> metrics" where
  "seed_outputs outputs s = fold seed_out outputs s"

text \<open>\<open>[i for i in ins if i != j]\<close>.\<close>

definition other_ins :: "string list \<Rightarrow> string \<Rightarrow> string list" where
  "other_ins ins j = filter (\<lambda>i. i \<noteq> j) ins"

text \<open>\<open>bkwd_level.get(out, 0)\<close>.\<close>

definition bkwd_get :: "int dict \<Rightarrow> string \<Rightarrow> int" where
  "bkwd_get d k = (case map_of d k of None \<Rightarrow> 0 | Some v \<Rightarrow> v)"

text \<open>The assignment to \<open>CO[j]\<close> in the body of the loop over the inputs of a gate.\<close>

definition co_in :: "string \<Rightarrow> string \<Rightarrow> string list \<Rightarrow> string \<Rightarrow> metrics \<Rightarrow> error + metrics" where
  "co_in gate_type out ins j s =
    (if gate_type = ''AND'' \<or> gate_type = ''NAND'' then
       ebind (dict_get (CO s) out) (\<lambda>c.
       ebind (sum_of (CC1 s) (other_ins ins j)) (\<lambda>t. Inr (set_CO j (c + t + 1) s)))
     else if gate_type = ''OR'' \<or> gate_type = ''NOR'' then
       ebind (dict_get (CO s) out) (\<lambda>c.
       ebind (sum_of (CC0 s) (other_ins ins j)) (\<lambda>t. Inr (set_CO j (c + t + 1) s)))
     else if gate_type = ''XOR'' \<or> gate_type = ''XNOR'' then
       (case other_ins ins j of
          [k] \<Rightarrow>
            ebind (dict_get (CO s) out) (\<lambda>c.
            ebind (dict_get (CC0 s) k) (\<lambda>x.
            ebind (dict_get (CC1 s) k) (\<lambda>y. Inr (set_CO j (c + min x y + 1) s))))
        | _ \<Rightarrow> Inr s)
     else
       ebind (dict_get (CO s) out) (\<lambda>c. Inr (set_CO j (c + 1) s)))"

definition bwd_in :: "string \<Rightarrow> string \<Rightarrow> string list \<Rightarrow> string \<Rightarrow> metrics \<Rightarrow> error + metrics" where
  "bwd_in gate_type out ins j s =
     ebind (co_in gate_type out ins j s) (\<lambda>s1.
       Inr (set_bkwd j (bkwd_get (bkwd_level s1) out + 1) s1))"

definition bwd_gate :: "gate \<Rightarrow> metrics \<Rightarrow> error + metrics" where
  "bwd_gate g s =
    (case g of (gate_type, out, ins, name) \<Rightarrow>
       if dict_has (CO s) out then efold (bwd_in gate_type out ins) ins s else Inr s)"

definition backward :: "gate list \<Rightarrow> metrics \<Rightarrow> error + metrics" where
  "backward gates s = efold bwd_gate (rev gates) s"

subsection \<open>Sequential testability (lines 96 to 99)\<close>

text \<open>
  The loop runs over the set of the keys of \<open>CC0\<close> and \<open>CO\<close>. The order in which Python
  iterates that set only decides the order of the keys of the three derived maps.
\<close>

definition all_nets :: "metrics \<Rightarrow> string list" where
  "all_nets s = remdups (map fst (CC0 s) @ map fst (CO s))"

definition derive_net :: "string \<Rightarrow> metrics \<Rightarrow> metrics" where
  "derive_net n s =
     s\<lparr>SC0 := dict_set (SC0 s) n (xadd (get_inf (CC0 s) n) (get_inf (CO s) n)),
       SC1 := dict_set (SC1 s) n (xadd (get_inf (CC1 s) n) (get_inf (CO s) n)),
       SO := dict_set (SO s) n (get_inf (CO s) n)\<rparr>"

definition derive :: "metrics \<Rightarrow> metrics" where
  "derive s = fold derive_net (all_nets s) s"

subsection \<open>The analysis\<close>

definition scoap :: "string list \<Rightarrow> string list \<Rightarrow> gate list \<Rightarrow> seq_cell list \<Rightarrow> error + metrics" where
  "scoap inputs outputs gates seq_cells =
     ebind (forward gates (seed_seq seq_cells (seed_inputs inputs init))) (\<lambda>s.
     ebind (backward gates (seed_outputs outputs s)) (\<lambda>s'. Inr (derive s')))"

subsection \<open>Predicates used in the proofs\<close>

text \<open>Every entry of a cost map is at least 1.\<close>

definition all_ge1 :: "real dict \<Rightarrow> bool" where
  "all_ge1 d = list_all (\<lambda>(k, v). 1 \<le> v) d"

definition cc_ok :: "metrics \<Rightarrow> bool" where
  "cc_ok s \<longleftrightarrow> all_ge1 (CC0 s) \<and> all_ge1 (CC1 s)"

text \<open>A net carries the values of a seeded net.\<close>

definition seeded :: "string \<Rightarrow> metrics \<Rightarrow> bool" where
  "seeded n s \<longleftrightarrow>
     map_of (CC0 s) n = Some 1 \<and> map_of (CC1 s) n = Some 1 \<and> map_of (fwd_level s) n = Some 0"


definition scenario1 :: "metrics \<Rightarrow> bool" where
  "scenario1 r \<longleftrightarrow>
     map_of (CC0 r) = [''a'' \<mapsto> 1, ''b'' \<mapsto> 1, ''y'' \<mapsto> 2] \<and>
     map_of (CC1 r) = [''a'' \<mapsto> 1, ''b'' \<mapsto> 1, ''y'' \<mapsto> 3] \<and>
     map_of (fwd_level r) ''y'' = Some 1 \<and>
     map_of (CO r) = [''y'' \<mapsto> 0, ''a'' \<mapsto> 2, ''b'' \<mapsto> 2] \<and>
     map_of (bkwd_level r) ''a'' = Some 1 \<and> map_of (bkwd_level r) ''b'' = Some 1"

definition lvl_ok :: "metrics \<Rightarrow> bool" where
  "lvl_ok s \<longleftrightarrow> list_all (dict_has (fwd_level s)) (map fst (CC0 s))"




subsection \<open>Notions used to state the claims\<close>

definition gate_kind :: "gate \<Rightarrow> string" where
  "gate_kind g = (case g of (gate_type, out, ins, name) \<Rightarrow> gate_type)"

text \<open>
  The term that the backward sweep adds between \<open>CO[out]\<close> and 1 when it writes \<open>CO[j]\<close>
  (lines 81, 84, 89 and 91).
\<close>

definition co_term :: "string \<Rightarrow> string list \<Rightarrow> string \<Rightarrow> metrics \<Rightarrow> error + real" where
  "co_term gate_type ins j s =
    (if gate_type = ''AND'' \<or> gate_type = ''NAND'' then sum_of (CC1 s) (other_ins ins j)
     else if gate_type = ''OR'' \<or> gate_type = ''NOR'' then sum_of (CC0 s) (other_ins ins j)
     else if gate_type = ''XOR'' \<or> gate_type = ''XNOR'' then
       ebind (first_in (other_ins ins j)) (\<lambda>k.
       ebind (dict_get (CC0 s) k) (\<lambda>x.
       ebind (dict_get (CC1 s) k) (\<lambda>y. Inr (min x y))))
     else Inr 0)"

text \<open>
  The branch taken for input \<open>j\<close> assigns to \<open>CO[j]\<close>: every branch does, except the one
  for XOR and XNOR when the number of other inputs is not 1.
\<close>

definition writes_co :: "string \<Rightarrow> string list \<Rightarrow> string \<Rightarrow> bool" where
  "writes_co gate_type ins j \<longleftrightarrow>
     \<not> ((gate_type = ''XOR'' \<or> gate_type = ''XNOR'') \<and> length (other_ins ins j) \<noteq> 1)"

text \<open>
  The same term as the table of the backward sweep in the spec gives it: the sum of CC1
  over the other inputs for AND and NAND, the sum of CC0 over them for OR and NOR, the
  minimum of CC0 and CC1 of the one other input for XOR and XNOR, and 0 for any other
  type and for XOR and XNOR with a number of other inputs different from 1.
\<close>

definition table_co_term :: "string \<Rightarrow> string list \<Rightarrow> string \<Rightarrow> metrics \<Rightarrow> error + real" where
  "table_co_term gate_type ins j s =
     (if writes_co gate_type ins j then co_term gate_type ins j s else Inr 0)"

text \<open>
  While the sweep processes the gates \<open>gs\<close> in this order from the state \<open>s\<close>, no gate
  assigns to \<open>CO[j]\<close>: each gate reached does not list \<open>j\<close> among its inputs, or its output
  has no CO value at that moment, or it takes the branch that does not assign.
\<close>

fun no_write :: "string \<Rightarrow> gate list \<Rightarrow> metrics \<Rightarrow> bool" where
  "no_write j [] s = True"
| "no_write j (g # gs) s =
     ((j \<notin> set (gate_ins g) \<or> \<not> dict_has (CO s) (gate_out g) \<or>
       \<not> writes_co (gate_kind g) (gate_ins g) j) \<and>
      (case bwd_gate g s of Inl e \<Rightarrow> True | Inr s' \<Rightarrow> no_write j gs s'))"

text \<open>
  The states of the backward sweep on the netlist with inputs \<open>n\<close>, \<open>b\<close>, \<open>c\<close>, outputs
  \<open>y1\<close>, \<open>y2\<close> and the gates \<open>("XOR", "y1", ["n", "b", "c"], "g1")\<close>,
  \<open>("AND", "y2", ["n", "b"], "g2")\<close>: before the sweep, after the AND gate, and after the
  XOR gate.
\<close>

definition fanout_s0 :: metrics where
  "fanout_s0 =
     \<lparr>CC0 = [(''n'', 1), (''b'', 1), (''c'', 1), (''y2'', 2)],
      CC1 = [(''n'', 1), (''b'', 1), (''c'', 1), (''y2'', 3)],
      CO = [(''y1'', 0), (''y2'', 0)], SC0 = [], SC1 = [], SO = [],
      fwd_level = [(''n'', 0), (''b'', 0), (''c'', 0), (''y1'', 1), (''y2'', 1)],
      bkwd_level = [(''y1'', 0), (''y2'', 0)]\<rparr>"

definition fanout_s1 :: metrics where
  "fanout_s1 =
     \<lparr>CC0 = [(''n'', 1), (''b'', 1), (''c'', 1), (''y2'', 2)],
      CC1 = [(''n'', 1), (''b'', 1), (''c'', 1), (''y2'', 3)],
      CO = [(''y1'', 0), (''y2'', 0), (''n'', 2), (''b'', 2)], SC0 = [], SC1 = [], SO = [],
      fwd_level = [(''n'', 0), (''b'', 0), (''c'', 0), (''y1'', 1), (''y2'', 1)],
      bkwd_level = [(''y1'', 0), (''y2'', 0), (''n'', 1), (''b'', 1)]\<rparr>"

definition fanout_s2 :: metrics where
  "fanout_s2 =
     \<lparr>CC0 = [(''n'', 1), (''b'', 1), (''c'', 1), (''y2'', 2)],
      CC1 = [(''n'', 1), (''b'', 1), (''c'', 1), (''y2'', 3)],
      CO = [(''y1'', 0), (''y2'', 0), (''n'', 2), (''b'', 2)], SC0 = [], SC1 = [], SO = [],
      fwd_level = [(''n'', 0), (''b'', 0), (''c'', 0), (''y1'', 1), (''y2'', 1)],
      bkwd_level = [(''y1'', 0), (''y2'', 0), (''n'', 1), (''b'', 1), (''c'', 1)]\<rparr>"








section \<open>Proofs\<close>

lemma ebind_Inr [simp]: "ebind (Inr x) f = f x"
  by (simp add: ebind_def)

lemma ebind_Inl [simp]: "ebind (Inl e) f = Inl e"
  by (simp add: ebind_def)

lemma ebind_eq_Inr: "ebind m f = Inr y \<longleftrightarrow> (\<exists>x. m = Inr x \<and> f x = Inr y)"
  by (cases m) simp_all

lemma efold_append: "efold f (xs @ ys) s = ebind (efold f xs s) (efold f ys)"
proof (induction xs arbitrary: s)
  case Nil
  show ?case by simp
next
  case (Cons x xs)
  show ?case by (cases "f x s") (simp_all add: Cons.IH)
qed

lemma map_of_dict_set: "map_of (dict_set d k v) = (map_of d)(k \<mapsto> v)"
  by (induction d) (auto simp: fun_eq_iff)

lemma dict_has_dict_set: "dict_has (dict_set d k v) n \<longleftrightarrow> n = k \<or> dict_has d n"
  by (simp add: dict_has_def map_of_dict_set)

lemma dict_get_Inr: "dict_get d k = Inr v \<longleftrightarrow> map_of d k = Some v"
  by (simp add: dict_get_def split: option.splits)

lemma lookups_Inr: "lookups d ks = Inr vs \<longleftrightarrow> map (map_of d) ks = map Some vs"
proof (induction ks arbitrary: vs)
  case Nil
  show ?case by auto
next
  case (Cons k ks)
  show ?case
    by (cases vs) (auto simp: ebind_eq_Inr dict_get_Inr Cons.IH)
qed

lemma lookups_total:
  "list_all (dict_has d) ks \<Longrightarrow> lookups d ks = Inr (map (\<lambda>k. the (map_of d k)) ks)"
  by (induction ks) (auto simp: dict_get_def dict_has_def)


lemma lookups_vals:
  "lookups d ks = Inr vs \<Longrightarrow> v \<in> set vs \<Longrightarrow> \<exists>k \<in> set ks. map_of d k = Some v"
  by (induction ks arbitrary: vs) (auto simp: ebind_eq_Inr dict_get_Inr)

lemma fold_min_in: "fold min xs (x::'a::linorder) \<in> set (x # xs)"
  by (induction xs arbitrary: x) (auto simp: min_def)

lemma fold_max_in: "fold max xs (x::'a::linorder) \<in> set (x # xs)"
  by (induction xs arbitrary: x) (auto simp: max_def)

lemma py_min_in: "py_min vs = Inr m \<Longrightarrow> m \<in> set vs"
  using fold_min_in by (cases vs) auto

lemma fold_max_Max: "fold max xs (x::'a::linorder) = Max (set (x # xs))"
  by (rule Max.set_eq_fold [symmetric])

lemma fold_min_Min: "fold min xs (x::'a::linorder) = Min (set (x # xs))"
  by (rule Min.set_eq_fold [symmetric])

lemma set_dict_set: "set (dict_set d k v) \<subseteq> insert (k, v) (set d)"
  by (induction d) (auto split: if_splits)

lemma all_ge1_dict_set: "all_ge1 d \<Longrightarrow> 0 \<le> v \<Longrightarrow> all_ge1 (dict_set d k (v + 1))"
  using set_dict_set [of d k "v + 1"] by (auto simp: all_ge1_def list_all_iff)

lemma all_ge1_map_of: "all_ge1 d \<Longrightarrow> map_of d k = Some v \<Longrightarrow> 1 \<le> v"
  by (auto simp: all_ge1_def list_all_iff dest: map_of_SomeD)

lemma dict_get_ge0: "all_ge1 d \<Longrightarrow> dict_get d k = Inr v \<Longrightarrow> 0 \<le> v"
  using all_ge1_map_of [of d k v] by (simp add: dict_get_Inr)

lemma lookups_ge1:
  assumes "all_ge1 d" and "lookups d ks = Inr vs" and "v \<in> set vs"
  shows "1 \<le> v"
proof -
  from lookups_vals [OF assms(2,3)] obtain k where "map_of d k = Some v" by blast
  with assms(1) show ?thesis by (rule all_ge1_map_of)
qed

lemma min_of_ge0:
  assumes "all_ge1 d" and "min_of d ks = Inr m"
  shows "0 \<le> m"
proof -
  from assms(2) obtain vs where vs: "lookups d ks = Inr vs" and m: "py_min vs = Inr m"
    by (auto simp: min_of_def ebind_eq_Inr)
  from lookups_ge1 [OF assms(1) vs py_min_in [OF m]] show ?thesis by simp
qed

lemma sum_of_ge0:
  assumes "all_ge1 d" and "sum_of d ks = Inr t"
  shows "0 \<le> t"
proof -
  from assms(2) obtain vs where vs: "lookups d ks = Inr vs" and t: "t = sum_list vs"
    by (auto simp: sum_of_def ebind_eq_Inr)
  have "0 \<le> v" if "v \<in> set vs" for v
    using lookups_ge1 [OF assms(1) vs that] by simp
  then show ?thesis unfolding t by (rule sum_list_nonneg)
qed

lemma add2_ge0: "all_ge1 d1 \<Longrightarrow> all_ge1 d2 \<Longrightarrow> add2 d1 a d2 b = Inr x \<Longrightarrow> 0 \<le> x"
  by (auto simp: add2_def ebind_eq_Inr dest!: dict_get_ge0)

lemmas setter_defs = set_CC0_def set_CC1_def set_CO_def set_fwd_def set_bkwd_def

lemma cc_ok_set_CC0: "cc_ok s \<Longrightarrow> 0 \<le> v \<Longrightarrow> cc_ok (set_CC0 out (v + 1) s)"
  by (simp add: cc_ok_def all_ge1_dict_set set_CC0_def)

lemma cc_ok_set_CC1: "cc_ok s \<Longrightarrow> 0 \<le> v \<Longrightarrow> cc_ok (set_CC1 out (v + 1) s)"
  by (simp add: cc_ok_def all_ge1_dict_set set_CC1_def)

lemma cc_ok_reads:
  "min_of (CC0 s) ks = Inr m \<Longrightarrow> cc_ok s \<Longrightarrow> 0 \<le> m"
  "min_of (CC1 s) ks = Inr m \<Longrightarrow> cc_ok s \<Longrightarrow> 0 \<le> m"
  "sum_of (CC0 s) ks = Inr m \<Longrightarrow> cc_ok s \<Longrightarrow> 0 \<le> m"
  "sum_of (CC1 s) ks = Inr m \<Longrightarrow> cc_ok s \<Longrightarrow> 0 \<le> m"
  "dict_get (CC0 s) k = Inr m \<Longrightarrow> cc_ok s \<Longrightarrow> 0 \<le> m"
  "dict_get (CC1 s) k = Inr m \<Longrightarrow> cc_ok s \<Longrightarrow> 0 \<le> m"
  "add2 (CC0 s) a (CC0 s) b = Inr m \<Longrightarrow> cc_ok s \<Longrightarrow> 0 \<le> m"
  "add2 (CC0 s) a (CC1 s) b = Inr m \<Longrightarrow> cc_ok s \<Longrightarrow> 0 \<le> m"
  "add2 (CC1 s) a (CC0 s) b = Inr m \<Longrightarrow> cc_ok s \<Longrightarrow> 0 \<le> m"
  "add2 (CC1 s) a (CC1 s) b = Inr m \<Longrightarrow> cc_ok s \<Longrightarrow> 0 \<le> m"
  by (auto simp: cc_ok_def intro: min_of_ge0 sum_of_ge0 dict_get_ge0 add2_ge0)

lemma cc_gate_ok:
  assumes "cc_gate t out ins s = Inr s'" and "cc_ok s"
  shows "cc_ok s'"
proof -
  consider (AND) "t = ''AND''" | (NAND) "t = ''NAND''" | (OR) "t = ''OR''" | (NOR) "t = ''NOR''"
    | (NOT) "t = ''NOT''" | (BUF) "t = ''BUF''" | (XOR) "t = ''XOR''" | (XNOR) "t = ''XNOR''"
    | (other) "t \<noteq> ''AND''" "t \<noteq> ''NAND''" "t \<noteq> ''OR''" "t \<noteq> ''NOR''" "t \<noteq> ''NOT''"
        "t \<noteq> ''BUF''" "t \<noteq> ''XOR''" "t \<noteq> ''XNOR''"
    by blast
  then show ?thesis
  proof cases
    case AND
    with assms show ?thesis
      by (auto simp: cc_gate_def ebind_eq_Inr Let_def intro!: cc_ok_set_CC0 cc_ok_set_CC1 dest!: cc_ok_reads)
  next
    case NAND
    with assms show ?thesis 
      by (auto simp: cc_gate_def ebind_eq_Inr Let_def intro!: cc_ok_set_CC0 cc_ok_set_CC1 dest!: cc_ok_reads)
  next
    case OR
    with assms show ?thesis
      by (auto simp: cc_gate_def ebind_eq_Inr Let_def intro!: cc_ok_set_CC0 cc_ok_set_CC1 dest!: cc_ok_reads)
  next
    case NOR
    with assms show ?thesis
      by (auto simp: cc_gate_def ebind_eq_Inr Let_def intro!: cc_ok_set_CC0 cc_ok_set_CC1 dest!: cc_ok_reads)
  next
    case NOT
    with assms show ?thesis
      by (auto simp: cc_gate_def ebind_eq_Inr Let_def intro!: cc_ok_set_CC0 cc_ok_set_CC1 dest!: cc_ok_reads)
  next
    case BUF
    with assms show ?thesis
      by (auto simp: cc_gate_def ebind_eq_Inr Let_def intro!: cc_ok_set_CC0 cc_ok_set_CC1 dest!: cc_ok_reads)
  next
    case XOR
    with assms show ?thesis
      by (auto simp: cc_gate_def ebind_eq_Inr Let_def intro!: cc_ok_set_CC0 cc_ok_set_CC1 dest!: cc_ok_reads split: list.splits)
  next
    case XNOR
    with assms show ?thesis
      by (auto simp: cc_gate_def ebind_eq_Inr Let_def intro!: cc_ok_set_CC0 cc_ok_set_CC1 dest!: cc_ok_reads split: list.splits)
  next
    case other
    have "cc_ok (set_CC1 out (0 + 1) (set_CC0 out (0 + 1) s))"
      by (intro cc_ok_set_CC1 cc_ok_set_CC0 assms(2)) simp_all
    with other assms(1) show ?thesis by (simp add: cc_gate_def)
  qed
qed

lemma efold_inv:
  assumes "efold f xs s = Inr s'" and "P s"
    and "\<And>x a b. x \<in> set xs \<Longrightarrow> P a \<Longrightarrow> f x a = Inr b \<Longrightarrow> P b"
  shows "P s'"
  using assms
proof (induction xs arbitrary: s)
  case Nil
  then show ?case by simp
next
  case (Cons x xs)
  from Cons.prems(1) obtain a where a: "f x s = Inr a" and rest: "efold f xs a = Inr s'"
    by (auto simp: ebind_eq_Inr)
  have "P a" using Cons.prems(3) [of x s a] Cons.prems(2) a by simp
  with rest show ?case using Cons.IH [of a] Cons.prems(3) by auto
qed

lemma cc_gate_shape:
  assumes "cc_gate t out ins s = Inr s'"
  shows "(s' = s \<and> (t = ''XOR'' \<or> t = ''XNOR'') \<and> length ins \<noteq> 2 \<or>
          (\<exists>v w. CC0 s' = dict_set (CC0 s) out v \<and> CC1 s' = dict_set (CC1 s) out w)) \<and>
         CO s' = CO s \<and> fwd_level s' = fwd_level s \<and> bkwd_level s' = bkwd_level s \<and>
         SC0 s' = SC0 s \<and> SC1 s' = SC1 s \<and> SO s' = SO s"
proof -
  consider (AND) "t = ''AND''" | (NAND) "t = ''NAND''" | (OR) "t = ''OR''" | (NOR) "t = ''NOR''"
    | (NOT) "t = ''NOT''" | (BUF) "t = ''BUF''" | (XOR) "t = ''XOR''" | (XNOR) "t = ''XNOR''"
    | (other) "t \<noteq> ''AND''" "t \<noteq> ''NAND''" "t \<noteq> ''OR''" "t \<noteq> ''NOR''" "t \<noteq> ''NOT''"
        "t \<noteq> ''BUF''" "t \<noteq> ''XOR''" "t \<noteq> ''XNOR''"
    by blast
  then show ?thesis
  proof cases
    case AND
    with assms show ?thesis
      by (auto simp: cc_gate_def ebind_eq_Inr Let_def setter_defs)
  next
    case NAND
    with assms show ?thesis 
      by (auto simp: cc_gate_def ebind_eq_Inr Let_def setter_defs)
  next
    case OR
    with assms show ?thesis
      by (auto simp: cc_gate_def ebind_eq_Inr Let_def setter_defs)
  next
    case NOR
    with assms show ?thesis
      by (auto simp: cc_gate_def ebind_eq_Inr Let_def setter_defs)
  next
    case NOT
    with assms show ?thesis
      by (auto simp: cc_gate_def ebind_eq_Inr Let_def setter_defs)
  next
    case BUF
    with assms show ?thesis
      by (auto simp: cc_gate_def ebind_eq_Inr Let_def setter_defs)
  next
    case XOR
    with assms show ?thesis
      by (auto simp: cc_gate_def ebind_eq_Inr Let_def setter_defs split: list.splits)
  next
    case XNOR
    with assms show ?thesis
      by (auto simp: cc_gate_def ebind_eq_Inr Let_def setter_defs split: list.splits)
  next
    case other
    with assms show ?thesis by (auto simp: cc_gate_def setter_defs)
  qed
qed

lemma cc_gate_frame:
  assumes "cc_gate t out ins s = Inr s'"
  shows "CO s' = CO s" and "fwd_level s' = fwd_level s" and "bkwd_level s' = bkwd_level s"
    and "SC0 s' = SC0 s" and "SC1 s' = SC1 s" and "SO s' = SO s"
    and "n \<noteq> out \<Longrightarrow> map_of (CC0 s') n = map_of (CC0 s) n"
    and "n \<noteq> out \<Longrightarrow> map_of (CC1 s') n = map_of (CC1 s) n"
  using cc_gate_shape [OF assms] by (auto simp: map_of_dict_set)

lemma eval_gate_Inr:
  assumes "eval_gate t out ins s = Inr s'"
  shows "\<exists>s1 m. cc_gate t out ins s = Inr s1 \<and> max_of (fwd_level s) ins = Inr m \<and>
           s' = set_fwd out (m + 1) s1"
proof -
  from assms obtain s1 m where s1: "cc_gate t out ins s = Inr s1"
    and m: "max_of (fwd_level s1) ins = Inr m" and s': "s' = set_fwd out (m + 1) s1"
    by (auto simp: eval_gate_def ebind_eq_Inr)
  with cc_gate_frame(2) [OF s1] show ?thesis by auto
qed

lemma fwd_gate_frame:
  assumes "fwd_gate g s = Inr s'"
  shows "CO s' = CO s" and "bkwd_level s' = bkwd_level s" and "SC0 s' = SC0 s"
    and "SC1 s' = SC1 s" and "SO s' = SO s"
    and "n \<noteq> gate_out g \<Longrightarrow> map_of (CC0 s') n = map_of (CC0 s) n"
    and "n \<noteq> gate_out g \<Longrightarrow> map_of (CC1 s') n = map_of (CC1 s) n"
    and "n \<noteq> gate_out g \<Longrightarrow> map_of (fwd_level s') n = map_of (fwd_level s) n"
proof -
  obtain t out ins nm where g: "g = (t, out, ins, nm)" by (cases g) auto
  have *: "s' = s \<or> (\<exists>s1 m. cc_gate t out ins s = Inr s1 \<and> s' = set_fwd out (m + 1) s1)"
    using assms eval_gate_Inr [of t out ins s s']
    by (auto simp: fwd_gate_def g split: if_splits)
  from * show "CO s' = CO s" and "bkwd_level s' = bkwd_level s" and "SC0 s' = SC0 s"
    and "SC1 s' = SC1 s" and "SO s' = SO s"
    by (auto simp: set_fwd_def dest: cc_gate_frame)
  from * show "n \<noteq> gate_out g \<Longrightarrow> map_of (CC0 s') n = map_of (CC0 s) n"
    and "n \<noteq> gate_out g \<Longrightarrow> map_of (CC1 s') n = map_of (CC1 s) n"
    and "n \<noteq> gate_out g \<Longrightarrow> map_of (fwd_level s') n = map_of (fwd_level s) n"
    by (auto simp: g gate_out_def set_fwd_def map_of_dict_set dest: cc_gate_frame)
qed

subsection \<open>Scenario 1: one AND gate\<close>

lemma scenario1_run_ab:
  "scoap [''a'', ''b''] [''y''] [(''AND'', ''y'', [''a'', ''b''], ''g1'')] [] =
     Inr \<lparr>CC0 = [(''a'', 1), (''b'', 1), (''y'', 2)],
          CC1 = [(''a'', 1), (''b'', 1), (''y'', 3)],
          CO = [(''y'', 0), (''a'', 2), (''b'', 2)],
          SC0 = [(''y'', Fin 2), (''a'', Fin 3), (''b'', Fin 3)],
          SC1 = [(''y'', Fin 3), (''a'', Fin 3), (''b'', Fin 3)],
          SO = [(''y'', Fin 0), (''a'', Fin 2), (''b'', Fin 2)],
          fwd_level = [(''a'', 0), (''b'', 0), (''y'', 1)],
          bkwd_level = [(''y'', 0), (''a'', 1), (''b'', 1)]\<rparr>"
  by code_simp

lemma scenario1_run_ba:
  "scoap [''b'', ''a''] [''y''] [(''AND'', ''y'', [''a'', ''b''], ''g1'')] [] =
     Inr \<lparr>CC0 = [(''b'', 1), (''a'', 1), (''y'', 2)],
          CC1 = [(''b'', 1), (''a'', 1), (''y'', 3)],
          CO = [(''y'', 0), (''a'', 2), (''b'', 2)],
          SC0 = [(''y'', Fin 2), (''a'', Fin 3), (''b'', Fin 3)],
          SC1 = [(''y'', Fin 3), (''a'', Fin 3), (''b'', Fin 3)],
          SO = [(''y'', Fin 0), (''a'', Fin 2), (''b'', Fin 2)],
          fwd_level = [(''b'', 0), (''a'', 0), (''y'', 1)],
          bkwd_level = [(''y'', 0), (''a'', 1), (''b'', 1)]\<rparr>"
  by code_simp

text \<open>
  Claim C2: for inputs \<open>{a, b}\<close>, outputs \<open>{y}\<close> and the single gate
  \<open>("AND", "y", ["a", "b"], "g1")\<close> the analysis returns, with CC0 and CC1 equal to 1 on
  \<open>a\<close> and \<open>b\<close>, CC0[y] = 2, CC1[y] = 3, FwdLev[y] = 1, CO[y] = 0, CO[a] = CO[b] = 2 and
  BkwdLev[a] = BkwdLev[b] = 1, and the three cost maps hold nothing else. Both orders in
  which the set of inputs can be iterated are covered.
\<close>

theorem scenario1_and_gate:
  "(\<exists>r. scoap [''a'', ''b''] [''y''] [(''AND'', ''y'', [''a'', ''b''], ''g1'')] [] = Inr r \<and> scenario1 r) \<and>
   (\<exists>r. scoap [''b'', ''a''] [''y''] [(''AND'', ''y'', [''a'', ''b''], ''g1'')] [] = Inr r \<and> scenario1 r)"
  unfolding scenario1_run_ab scenario1_run_ba
  by (auto simp: scenario1_def fun_eq_iff)

subsection \<open>The analysis can raise\<close>

text \<open>
  Claim C1 states that \<open>scoap\<close> returns a bundle for every well-typed input, and that the
  backward sweep can always read CC1 and CC0 of the other inputs of a gate. The forward
  sweep guards its reads with \<open>all(i in CC0 for i in ins)\<close>, the backward sweep reads
  \<open>CC1[k]\<close> unguarded. On the netlist below the 3-input XOR leaves \<open>x\<close> without
  controllability, the AND gate is skipped, and the backward sweep raises KeyError when
  it reads \<open>CC1[x]\<close> as the other input of \<open>a\<close>.
\<close>

theorem backward_read_raises:
  "scoap [''a'', ''b'', ''c''] [''y'']
     [(''XOR'', ''x'', [''a'', ''b'', ''c''], ''g1''), (''AND'', ''y'', [''x'', ''a''], ''g2'')] []
   = Inl (KeyError ''x'')"
  by code_simp

subsection \<open>What each phase leaves untouched\<close>

lemma fold_inv:
  assumes "P s" and "\<And>x a. x \<in> set xs \<Longrightarrow> P a \<Longrightarrow> P (f x a)"
  shows "P (fold f xs s)"
  using assms by (induction xs arbitrary: s) auto

lemma co_in_shape:
  assumes "co_in t out ins j s = Inr s'"
  shows "s' = s \<or> (\<exists>v. s' = set_CO j v s)"
proof (cases "t = ''AND'' \<or> t = ''NAND''")
  case True
  with assms show ?thesis by (auto simp: co_in_def ebind_eq_Inr)
next
  case A: False
  show ?thesis
  proof (cases "t = ''OR'' \<or> t = ''NOR''")
    case True
    with A assms show ?thesis by (auto simp: co_in_def ebind_eq_Inr)
  next
    case B: False
    show ?thesis
    proof (cases "t = ''XOR'' \<or> t = ''XNOR''")
      case True
      with A B have eq: "co_in t out ins j s = (case other_ins ins j of
          [k] \<Rightarrow>
            ebind (dict_get (CO s) out) (\<lambda>c.
            ebind (dict_get (CC0 s) k) (\<lambda>x.
            ebind (dict_get (CC1 s) k) (\<lambda>y. Inr (set_CO j (c + min x y + 1) s))))
        | _ \<Rightarrow> Inr s)"
        unfolding co_in_def by simp
      show ?thesis using assms(1) unfolding eq
        by (cases "other_ins ins j" rule: list.exhaust; (simp; fail)?;
            cases "tl (other_ins ins j)"; auto simp: ebind_eq_Inr)
    next
      case False
      with A B assms show ?thesis by (auto simp: co_in_def ebind_eq_Inr)
    qed
  qed
qed

lemma bwd_in_frame:
  assumes "bwd_in t out ins j s = Inr s'"
  shows "CC0 s' = CC0 s \<and> CC1 s' = CC1 s \<and> fwd_level s' = fwd_level s \<and>
         SC0 s' = SC0 s \<and> SC1 s' = SC1 s \<and> SO s' = SO s"
proof -
  from assms obtain s1 where s1: "co_in t out ins j s = Inr s1"
    and s': "s' = set_bkwd j (bkwd_get (bkwd_level s1) out + 1) s1"
    by (auto simp: bwd_in_def ebind_eq_Inr)
  from co_in_shape [OF s1] show ?thesis
    unfolding s' by (auto simp: setter_defs)
qed

lemma bwd_gate_frame:
  assumes "bwd_gate g s = Inr s'"
  shows "CC0 s' = CC0 s \<and> CC1 s' = CC1 s \<and> fwd_level s' = fwd_level s \<and>
         SC0 s' = SC0 s \<and> SC1 s' = SC1 s \<and> SO s' = SO s"
proof -
  obtain t out ins nm where g: "g = (t, out, ins, nm)" by (cases g) auto
  show ?thesis
  proof (cases "dict_has (CO s) out")
    case True
    with assms have run: "efold (bwd_in t out ins) ins s = Inr s'"
      by (simp add: bwd_gate_def g)
    show ?thesis
      by (rule efold_inv [OF run, where P = "\<lambda>a. CC0 a = CC0 s \<and> CC1 a = CC1 s \<and>
          fwd_level a = fwd_level s \<and> SC0 a = SC0 s \<and> SC1 a = SC1 s \<and> SO a = SO s"])
        (auto dest: bwd_in_frame)
  next
    case False
    with assms show ?thesis by (simp add: bwd_gate_def g)
  qed
qed

lemma backward_frame:
  assumes "backward gates s = Inr s'"
  shows "CC0 s' = CC0 s \<and> CC1 s' = CC1 s \<and> fwd_level s' = fwd_level s \<and>
         SC0 s' = SC0 s \<and> SC1 s' = SC1 s \<and> SO s' = SO s"
  by (rule efold_inv [OF assms [unfolded backward_def], where P = "\<lambda>a. CC0 a = CC0 s \<and>
      CC1 a = CC1 s \<and> fwd_level a = fwd_level s \<and> SC0 a = SC0 s \<and> SC1 a = SC1 s \<and> SO a = SO s"])
    (auto dest: bwd_gate_frame)

lemma seed_outputs_frame:
  "CC0 (seed_outputs outputs s) = CC0 s \<and> CC1 (seed_outputs outputs s) = CC1 s \<and>
   fwd_level (seed_outputs outputs s) = fwd_level s \<and> SC0 (seed_outputs outputs s) = SC0 s \<and>
   SC1 (seed_outputs outputs s) = SC1 s \<and> SO (seed_outputs outputs s) = SO s"
  unfolding seed_outputs_def
  by (rule fold_inv [where P = "\<lambda>a. CC0 a = CC0 s \<and> CC1 a = CC1 s \<and>
      fwd_level a = fwd_level s \<and> SC0 a = SC0 s \<and> SC1 a = SC1 s \<and> SO a = SO s"])
    (auto simp: seed_out_def setter_defs)

lemma derive_frame:
  "CC0 (derive s) = CC0 s \<and> CC1 (derive s) = CC1 s \<and> CO (derive s) = CO s \<and>
   fwd_level (derive s) = fwd_level s \<and> bkwd_level (derive s) = bkwd_level s"
  unfolding derive_def
  by (rule fold_inv [where P = "\<lambda>a. CC0 a = CC0 s \<and> CC1 a = CC1 s \<and> CO a = CO s \<and>
      fwd_level a = fwd_level s \<and> bkwd_level a = bkwd_level s"])
    (auto simp: derive_net_def)

text \<open>A run of \<open>scoap\<close> that returns went through its three phases.\<close>

lemma scoap_Inr:
  assumes "scoap inputs outputs gates seq_cells = Inr r"
  obtains s3 s5 where
    "forward gates (seed_seq seq_cells (seed_inputs inputs init)) = Inr s3"
    "backward gates (seed_outputs outputs s3) = Inr s5"
    "r = derive s5"
    "CC0 r = CC0 s3" "CC1 r = CC1 s3" "fwd_level r = fwd_level s3"
    "CO r = CO s5" "bkwd_level r = bkwd_level s5"
proof -
  from assms obtain s3 s5 where
    f: "forward gates (seed_seq seq_cells (seed_inputs inputs init)) = Inr s3"
    and b: "backward gates (seed_outputs outputs s3) = Inr s5" and r: "r = derive s5"
    by (auto simp: scoap_def ebind_eq_Inr)
  from backward_frame [OF b] seed_outputs_frame [of outputs s3]
  have "CC0 s5 = CC0 s3" "CC1 s5 = CC1 s3" "fwd_level s5 = fwd_level s3" by simp_all
  with derive_frame [of s5] r
  have "CC0 r = CC0 s3" "CC1 r = CC1 s3" "fwd_level r = fwd_level s3"
    "CO r = CO s5" "bkwd_level r = bkwd_level s5" by simp_all
  with f b r show ?thesis by (rule that)
qed

subsection \<open>Controllability is at least 1\<close>

lemma cc_ok_seed_net: "cc_ok s \<Longrightarrow> cc_ok (seed_net i s)"
  using all_ge1_dict_set [of _ 0]
  by (simp add: cc_ok_def seed_net_def setter_defs)

lemma cc_ok_seeds: "cc_ok (seed_seq seq_cells (seed_inputs inputs init))"
proof -
  have "cc_ok init" by (simp add: cc_ok_def init_def all_ge1_def)
  then have "cc_ok (seed_inputs inputs init)"
    unfolding seed_inputs_def by (rule fold_inv [where P = cc_ok]) (rule cc_ok_seed_net)
  then show ?thesis
    unfolding seed_seq_def by (rule fold_inv [where P = cc_ok]) (rule cc_ok_seed_net)
qed

lemma cc_ok_fwd_gate:
  assumes "fwd_gate g s = Inr s'" and "cc_ok s"
  shows "cc_ok s'"
proof -
  obtain t out ins nm where g: "g = (t, out, ins, nm)" by (cases g) auto
  show ?thesis
  proof (cases "list_all (dict_has (CC0 s)) ins")
    case True
    with assms(1) have "eval_gate t out ins s = Inr s'" by (simp add: fwd_gate_def g)
    from eval_gate_Inr [OF this] obtain s1 m where
      s1: "cc_gate t out ins s = Inr s1" and s': "s' = set_fwd out (m + 1) s1" by blast
    from cc_gate_ok [OF s1 assms(2)] show ?thesis
      unfolding s' by (simp add: cc_ok_def set_fwd_def)
  next
    case False
    with assms show ?thesis by (simp add: fwd_gate_def g)
  qed
qed

lemma cc_ok_forward: "forward gates s = Inr s' \<Longrightarrow> cc_ok s \<Longrightarrow> cc_ok s'"
  unfolding forward_def by (erule efold_inv [where P = cc_ok]) (auto intro: cc_ok_fwd_gate)

text \<open>
  Claim C8: whenever the analysis returns, every entry of the returned CC0 map and every
  entry of the returned CC1 map is at least 1.
\<close>

theorem controllability_at_least_one:
  assumes "scoap inputs outputs gates seq_cells = Inr r"
  shows "all_ge1 (CC0 r) \<and> all_ge1 (CC1 r)"
proof -
  from assms obtain s3 where
    f: "forward gates (seed_seq seq_cells (seed_inputs inputs init)) = Inr s3"
    and "CC0 r = CC0 s3" "CC1 r = CC1 s3"
    by (rule scoap_Inr)
  with cc_ok_forward [OF f cc_ok_seeds] show ?thesis by (simp add: cc_ok_def)
qed

theorem controllability_at_least_one_witness:
  "all_ge1 [(''a'', 1), (''b'', 1), (''y'', 2)] \<and> all_ge1 [(''a'', 1), (''b'', 1), (''y'', 3)]"
  using controllability_at_least_one [OF scenario1_run_ab] by simp

subsection \<open>Seeded nets\<close>

lemma seed_net_same:
  "map_of (CC0 (seed_net n s)) n = Some 1 \<and> map_of (CC1 (seed_net n s)) n = Some 1 \<and>
   map_of (fwd_level (seed_net n s)) n = Some 0"
  by (simp add: seed_net_def setter_defs map_of_dict_set)

lemma seed_net_other:
  "i \<noteq> n \<Longrightarrow> map_of (CC0 (seed_net i s)) n = map_of (CC0 s) n \<and>
     map_of (CC1 (seed_net i s)) n = map_of (CC1 s) n \<and>
     map_of (fwd_level (seed_net i s)) n = map_of (fwd_level s) n"
  by (simp add: seed_net_def setter_defs map_of_dict_set)

lemma seeded_seed_net:
  assumes "i = n \<or> seeded n s"
  shows "seeded n (seed_net i s)"
  using assms seed_net_same [of n s] seed_net_other [of i n s]
  by (cases "i = n") (auto simp: seeded_def)

lemma seeded_fold:
  "n \<in> set xs \<or> seeded n s \<Longrightarrow> seeded n (fold seed_net xs s)"
proof (induction xs arbitrary: s)
  case Nil
  then show ?case by simp
next
  case (Cons x xs)
  show ?case
  proof (cases "n \<in> set xs")
    case True
    then show ?thesis by (simp add: Cons.IH)
  next
    case False
    with Cons.prems have "x = n \<or> seeded n s" by auto
    then have "seeded n (seed_net x s)" by (rule seeded_seed_net)
    then show ?thesis by (simp add: Cons.IH)
  qed
qed

lemma seed_seq_fold: "seed_seq seq_cells s = fold seed_net (map output_net seq_cells) s"
  by (simp add: seed_seq_def fold_map comp_def)

lemma seeded_seeds:
  assumes "n \<in> set inputs \<union> output_net ` set seq_cells"
  shows "seeded n (seed_seq seq_cells (seed_inputs inputs init))"
proof -
  have "n \<in> set (map output_net seq_cells) \<or> seeded n (seed_inputs inputs init)"
    using assms seeded_fold [of n inputs init] by (auto simp: seed_inputs_def)
  then show ?thesis unfolding seed_seq_fold by (rule seeded_fold)
qed

lemma seeded_forward:
  assumes "forward gates s = Inr s'" and "seeded n s" and "n \<notin> gate_out ` set gates"
  shows "seeded n s'"
proof (rule efold_inv [OF assms(1) [unfolded forward_def], where P = "seeded n"])
  show "seeded n s" by fact
next
  fix g a b
  assume g: "g \<in> set gates" and a: "seeded n a" and b: "fwd_gate g a = Inr b"
  from g assms(3) have "n \<noteq> gate_out g" by auto
  with fwd_gate_frame(6-8) [OF b] a show "seeded n b" by (simp add: seeded_def)
qed

text \<open>
  Claim C3: after the analysis returns, a net that is a primary input or the output Q of
  a sequential cell, and that no gate drives, has CC0 = CC1 = 1 and FwdLev = 0.
\<close>

theorem seeded_nets_keep_unit_cost:
  assumes "scoap inputs outputs gates seq_cells = Inr r"
    and "n \<in> set inputs \<union> output_net ` set seq_cells"
    and "n \<notin> gate_out ` set gates"
  shows "map_of (CC0 r) n = Some 1 \<and> map_of (CC1 r) n = Some 1 \<and>
         map_of (fwd_level r) n = Some 0"
proof -
  from assms(1) obtain s3 where
    f: "forward gates (seed_seq seq_cells (seed_inputs inputs init)) = Inr s3"
    and eq: "CC0 r = CC0 s3" "CC1 r = CC1 s3" "fwd_level r = fwd_level s3"
    by (rule scoap_Inr)
  from seeded_forward [OF f seeded_seeds [OF assms(2)] assms(3)]
  show ?thesis by (simp add: seeded_def eq)
qed

lemma seq_run:
  "scoap [''a''] [''y''] [(''AND'', ''y'', [''a'', ''q''], ''g1'')]
     [\<lparr>output_net = ''q'', input_net = ''d''\<rparr>] =
   Inr \<lparr>CC0 = [(''a'', 1), (''q'', 1), (''y'', 2)],
        CC1 = [(''a'', 1), (''q'', 1), (''y'', 3)],
        CO = [(''y'', 0), (''a'', 2), (''q'', 2)],
        SC0 = [(''y'', Fin 2), (''a'', Fin 3), (''q'', Fin 3)],
        SC1 = [(''y'', Fin 3), (''a'', Fin 3), (''q'', Fin 3)],
        SO = [(''y'', Fin 0), (''a'', Fin 2), (''q'', Fin 2)],
        fwd_level = [(''a'', 0), (''q'', 0), (''y'', 1)],
        bkwd_level = [(''y'', 0), (''a'', 1), (''q'', 1)]\<rparr>"
  by code_simp

theorem seeded_nets_keep_unit_cost_witness:
  "''q'' \<in> set [''a''] \<union> output_net ` set [\<lparr>output_net = ''q'', input_net = ''d''\<rparr>] \<and>
   ''q'' \<notin> gate_out ` set [(''AND'', ''y'', [''a'', ''q''], ''g1'')] \<and>
   map_of [(''a'', 1::real), (''q'', 1), (''y'', 2)] ''q'' = Some 1 \<and>
   map_of [(''a'', 1::real), (''q'', 1), (''y'', 3)] ''q'' = Some 1 \<and>
   map_of [(''a'', 0::int), (''q'', 0), (''y'', 1)] ''q'' = Some 0"
proof -
  have h1: "''q'' \<in> set [''a''] \<union> output_net ` set [\<lparr>output_net = ''q'', input_net = ''d''\<rparr>]"
    by simp
  have h2: "''q'' \<notin> gate_out ` set [(''AND'', ''y'', [''a'', ''q''], ''g1'')]"
    by (simp add: gate_out_def)
  from seeded_nets_keep_unit_cost [OF seq_run h1 h2] h1 h2 show ?thesis by simp
qed

subsection \<open>Nets without forward entries\<close>






subsection \<open>XOR and XNOR gates without two inputs\<close>

lemma dict_has_iff: "dict_has d n \<longleftrightarrow> n \<in> fst ` set d"
  by (simp add: dict_has_def map_of_eq_None_iff)

lemma lvl_ok_iff: "lvl_ok s \<longleftrightarrow> (\<forall>n. dict_has (CC0 s) n \<longrightarrow> dict_has (fwd_level s) n)"
  by (auto simp: lvl_ok_def list_all_iff dict_has_iff)

lemma lvl_ok_seed_net: "lvl_ok s \<Longrightarrow> lvl_ok (seed_net i s)"
  by (auto simp: lvl_ok_iff seed_net_def setter_defs dict_has_dict_set)

lemma lvl_ok_seeds: "lvl_ok (seed_seq seq_cells (seed_inputs inputs init))"
proof -
  have "lvl_ok init" by (simp add: lvl_ok_def init_def)
  then have "lvl_ok (seed_inputs inputs init)"
    unfolding seed_inputs_def by (rule fold_inv [where P = lvl_ok]) (rule lvl_ok_seed_net)
  then show ?thesis
    unfolding seed_seq_def by (rule fold_inv [where P = lvl_ok]) (rule lvl_ok_seed_net)
qed

lemma lvl_ok_fwd_gate:
  assumes "fwd_gate g s = Inr s'" and "lvl_ok s"
  shows "lvl_ok s'"
proof -
  obtain t out ins nm where g: "g = (t, out, ins, nm)" by (cases g) auto
  show ?thesis
  proof (cases "list_all (dict_has (CC0 s)) ins")
    case True
    with assms(1) have "eval_gate t out ins s = Inr s'" by (simp add: fwd_gate_def g)
    from eval_gate_Inr [OF this] obtain s1 m where
      s1: "cc_gate t out ins s = Inr s1" and s': "s' = set_fwd out (m + 1) s1" by blast
    from cc_gate_shape [OF s1] have
      "(\<forall>n. dict_has (CC0 s1) n \<longrightarrow> n = out \<or> dict_has (CC0 s) n) \<and> fwd_level s1 = fwd_level s"
      by (auto simp: dict_has_dict_set)
    with assms(2) show ?thesis
      unfolding s' by (auto simp: lvl_ok_iff set_fwd_def dict_has_dict_set)
  next
    case False
    with assms show ?thesis by (simp add: fwd_gate_def g)
  qed
qed

lemma lvl_ok_forward: "forward gates s = Inr s' \<Longrightarrow> lvl_ok s \<Longrightarrow> lvl_ok s'"
  unfolding forward_def by (erule efold_inv [where P = lvl_ok]) (auto intro: lvl_ok_fwd_gate)

lemma case_not_two:
  "length xs \<noteq> 2 \<Longrightarrow> (case xs of [] \<Rightarrow> d | [a] \<Rightarrow> d | [a, b] \<Rightarrow> f a b | a # b # c # r \<Rightarrow> d) = d"
  by (auto split: list.splits)

lemma cc_gate_xor_skip:
  assumes "t = ''XOR'' \<or> t = ''XNOR''" and "length ins \<noteq> 2"
  shows "cc_gate t out ins s = Inr s"
  using assms by (auto simp: cc_gate_def case_not_two)

lemma max_of_total:
  assumes "list_all (dict_has d) ks" and "ks \<noteq> []"
  shows "\<exists>ls. map (map_of d) ks = map Some ls \<and> max_of d ks = Inr (Max (set ls))"
proof -
  let ?ls = "map (\<lambda>k. the (map_of d k)) ks"
  from lookups_total [OF assms(1)] have l: "lookups d ks = Inr ?ls" .
  from assms(2) obtain x xs where xs: "?ls = x # xs" by (cases ks) auto
  have "py_max ?ls = Inr (Max (set ?ls))"
    unfolding xs by (simp only: py_max.simps fold_max_Max)
  with l have "max_of d ks = Inr (Max (set ?ls))" by (simp add: max_of_def)
  moreover from l have "map (map_of d) ks = map Some ?ls" by (simp only: lookups_Inr)
  ultimately show ?thesis by blast
qed

text \<open>
  Claim C6, amended: when the forward sweep reaches an XOR or XNOR gate that has at
  least one input, not exactly two, and all of whose inputs have CC0 entries, it sets
  FwdLev(out) to the maximum of the FwdLev of the inputs plus 1 and leaves CC0 and CC1 as
  they are. The state \<open>s\<close> is the one in which the sweep of \<open>scoap\<close> reaches the gate, after
  the gates \<open>pre\<close>; \<open>ls\<close> are the FwdLev values of the inputs.
\<close>

theorem xor_other_arity_sets_level_only:
  assumes "forward pre (seed_seq seq_cells (seed_inputs inputs init)) = Inr s"
    and "t = ''XOR'' \<or> t = ''XNOR''"
    and "length ins \<noteq> 2" and "ins \<noteq> []"
    and "\<forall>i \<in> set ins. map_of (CC0 s) i \<noteq> None"
  shows "\<exists>ls s'. map (map_of (fwd_level s)) ins = map Some ls \<and>
           fwd_gate (t, out, ins, nm) s = Inr s' \<and>
           CC0 s' = CC0 s \<and> CC1 s' = CC1 s \<and>
           map_of (fwd_level s') out = Some (Max (set ls) + 1)"
proof -
  have ok: "lvl_ok s" using lvl_ok_forward [OF assms(1) lvl_ok_seeds] .
  from assms(5) have cc: "list_all (dict_has (CC0 s)) ins"
    by (simp add: list_all_iff dict_has_def)
  with ok have "list_all (dict_has (fwd_level s)) ins"
    by (auto simp: lvl_ok_iff list_all_iff)
  from max_of_total [OF this assms(4)] obtain ls where
    ls: "map (map_of (fwd_level s)) ins = map Some ls"
    and m: "max_of (fwd_level s) ins = Inr (Max (set ls))" by blast
  have "fwd_gate (t, out, ins, nm) s = Inr (set_fwd out (Max (set ls) + 1) s)"
    using cc m cc_gate_xor_skip [OF assms(2,3)]
    by (simp add: fwd_gate_def eval_gate_def)
  with ls show ?thesis by (auto simp: set_fwd_def map_of_dict_set)
qed

lemma xor3_forward:
  "forward [] (seed_seq [] (seed_inputs [''a'', ''b'', ''c''] init)) =
     Inr \<lparr>CC0 = [(''a'', 1), (''b'', 1), (''c'', 1)],
          CC1 = [(''a'', 1), (''b'', 1), (''c'', 1)], CO = [], SC0 = [],
          SC1 = [], SO = [],
          fwd_level = [(''a'', 0), (''b'', 0), (''c'', 0)],
          bkwd_level = []\<rparr>"
  by code_simp

theorem xor_other_arity_sets_level_only_witness:
  "\<exists>ls s'. map (map_of [(''a'', 0::int), (''b'', 0), (''c'', 0)]) [''a'', ''b'', ''c''] = map Some ls \<and>
     fwd_gate (''XOR'', ''y'', [''a'', ''b'', ''c''], ''g1'')
       \<lparr>CC0 = [(''a'', 1), (''b'', 1), (''c'', 1)],
        CC1 = [(''a'', 1), (''b'', 1), (''c'', 1)], CO = [], SC0 = [],
        SC1 = [], SO = [],
        fwd_level = [(''a'', 0), (''b'', 0), (''c'', 0)],
        bkwd_level = []\<rparr> = Inr s' \<and>
     CC0 s' = [(''a'', 1), (''b'', 1), (''c'', 1)] \<and>
     CC1 s' = [(''a'', 1), (''b'', 1), (''c'', 1)] \<and>
     map_of (fwd_level s') ''y'' = Some (Max (set ls) + 1)"
  using xor_other_arity_sets_level_only [OF xor3_forward, of "''XOR''" "[''a'', ''b'', ''c'']" "''y''" "''g1''"]
  by simp

text \<open>
  Claim C6 as stated also covers the gate without inputs. There \<open>max\<close> is applied to an
  empty sequence and the analysis raises ValueError.
\<close>

theorem xor_no_inputs_raises:
  "scoap [] [] [(''XOR'', ''y'', [], ''g1'')] [] = Inl ValueError"
  by code_simp

subsection \<open>The guard of the forward sweep\<close>





















subsection \<open>Sequential testability\<close>









subsection \<open>A gate that lists a net twice\<close>

lemma bwd_in_dup_sum:
  assumes "dict_get (CO s) out = Inr c" and "a \<noteq> out"
    and "t = ''AND'' \<or> t = ''NAND'' \<or> t = ''OR'' \<or> t = ''NOR''"
  shows "bwd_in t out [a, a] a s =
           Inr (set_bkwd a (bkwd_get (bkwd_level s) out + 1) (set_CO a (c + 1) s))"
  using assms
  by (auto simp: bwd_in_def co_in_def other_ins_def sum_of_def setter_defs)

lemma bwd_in_dup_xor:
  assumes "t = ''XOR'' \<or> t = ''XNOR''"
  shows "bwd_in t out [a, a] a s = Inr (set_bkwd a (bkwd_get (bkwd_level s) out + 1) s)"
  using assms
  by (auto simp: bwd_in_def co_in_def other_ins_def)

text \<open>
  Claim C10, amended: the other inputs of a gate relative to its input \<open>j\<close> are the inputs
  whose name is not \<open>j\<close>, so for the input list \<open>[a, a]\<close> there are none. For a gate with
  inputs \<open>[a, a]\<close> whose output has the CO value \<open>c\<close>, and whose output is not the net
  \<open>a\<close> itself: a gate of type AND, NAND, OR or NOR gives CO(a) = c + 1, a gate of type XOR
  or XNOR leaves the CO map as it is, and both set BkwdLev(a) to BkwdLev(out) + 1.
\<close>

theorem duplicate_input_is_filtered:
  assumes "dict_get (CO s) out = Inr c" and "a \<noteq> out"
    and "t = ''AND'' \<or> t = ''NAND'' \<or> t = ''OR'' \<or> t = ''NOR'' \<or> t = ''XOR'' \<or> t = ''XNOR''"
  shows "other_ins [a, a] a = [] \<and>
         (\<exists>s'. bwd_gate (t, out, [a, a], nm) s = Inr s' \<and>
            (if t = ''XOR'' \<or> t = ''XNOR'' then CO s' = CO s
             else map_of (CO s') a = Some (c + 1)) \<and>
            map_of (bkwd_level s') a = Some (bkwd_get (bkwd_level s) out + 1))"
proof (cases "t = ''XOR'' \<or> t = ''XNOR''")
  case True
  let ?s1 = "set_bkwd a (bkwd_get (bkwd_level s) out + 1) s"
  have lvl: "bkwd_get (bkwd_level ?s1) out = bkwd_get (bkwd_level s) out"
    using assms(2) by (simp add: set_bkwd_def bkwd_get_def map_of_dict_set)
  have "bwd_gate (t, out, [a, a], nm) s = Inr (set_bkwd a (bkwd_get (bkwd_level s) out + 1) ?s1)"
    using assms(1) bwd_in_dup_xor [OF True, of out a] lvl
    by (simp add: bwd_gate_def dict_has_def dict_get_Inr)
  with True show ?thesis
    by (auto simp: set_bkwd_def map_of_dict_set other_ins_def)
next
  case False
  with assms(3) have t: "t = ''AND'' \<or> t = ''NAND'' \<or> t = ''OR'' \<or> t = ''NOR''" by blast
  let ?s1 = "set_bkwd a (bkwd_get (bkwd_level s) out + 1) (set_CO a (c + 1) s)"
  have co: "dict_get (CO ?s1) out = Inr c"
    using assms(1,2) by (simp add: setter_defs dict_get_def map_of_dict_set)
  have lvl: "bkwd_get (bkwd_level ?s1) out = bkwd_get (bkwd_level s) out"
    using assms(2) by (simp add: setter_defs bkwd_get_def map_of_dict_set)
  have "bwd_gate (t, out, [a, a], nm) s =
      Inr (set_bkwd a (bkwd_get (bkwd_level s) out + 1) (set_CO a (c + 1) ?s1))"
    using assms(1) bwd_in_dup_sum [OF assms(1,2) t] bwd_in_dup_sum [OF co assms(2) t] lvl
    by (simp add: bwd_gate_def dict_has_def dict_get_Inr)
  with False show ?thesis
    by (auto simp: setter_defs map_of_dict_set other_ins_def)
qed

theorem duplicate_input_is_filtered_witness:
  "other_ins [''a'', ''a''] ''a'' = [] \<and>
   (\<exists>s'. bwd_gate (''AND'', ''y'', [''a'', ''a''], ''g1'')
            \<lparr>CC0 = [(''a'', 1)], CC1 = [(''a'', 1)], CO = [(''y'', 0)], SC0 = [], SC1 = [],
             SO = [], fwd_level = [(''a'', 0)], bkwd_level = [(''y'', 0)]\<rparr> = Inr s' \<and>
         map_of (CO s') ''a'' = Some (0 + 1) \<and> map_of (bkwd_level s') ''a'' = Some (0 + 1)) \<and>
   (\<exists>s'. bwd_gate (''XOR'', ''y'', [''a'', ''a''], ''g1'')
            \<lparr>CC0 = [(''a'', 1)], CC1 = [(''a'', 1)], CO = [(''y'', 0)], SC0 = [], SC1 = [],
             SO = [], fwd_level = [(''a'', 0)], bkwd_level = [(''y'', 0)]\<rparr> = Inr s' \<and>
         CO s' = [(''y'', 0)] \<and> map_of (bkwd_level s') ''a'' = Some (0 + 1))"
proof -
  let ?s = "\<lparr>CC0 = [(''a'', 1)], CC1 = [(''a'', 1)], CO = [(''y'', 0)], SC0 = [], SC1 = [],
             SO = [], fwd_level = [(''a'', 0)], bkwd_level = [(''y'', 0)]\<rparr>"
  have h1: "dict_get (CO ?s) ''y'' = Inr 0" by (simp add: dict_get_def)
  have h2: "''a'' \<noteq> ''y''" by simp
  from duplicate_input_is_filtered [OF h1 h2, of "''AND''" "''g1''"]
    duplicate_input_is_filtered [OF h1 h2, of "''XOR''" "''g1''"]
  show ?thesis by (simp add: bkwd_get_def)
qed

text \<open>
  Claim C10 as stated also covers a gate whose output is the duplicated net itself. There
  the second pass of the loop over the inputs reads the CO value and the level that the
  first pass has just written: with CO[a] = 0 and BkwdLev[a] = 0 before the gate, the
  analysis ends with CO[a] = 2 and BkwdLev[a] = 2.
\<close>

theorem duplicate_input_self_loop:
  "scoap [''a''] [''a''] [(''AND'', ''a'', [''a'', ''a''], ''g1'')] [] =
     Inr \<lparr>CC0 = [(''a'', 2)], CC1 = [(''a'', 3)], CO = [(''a'', 2)],
          SC0 = [(''a'', Fin 4)], SC1 = [(''a'', Fin 5)], SO = [(''a'', Fin 2)],
          fwd_level = [(''a'', 1)], bkwd_level = [(''a'', 2)]\<rparr>"
  by code_simp

subsection \<open>The last writer of a CO entry\<close>

lemma backward_split:
  "backward (pre @ g # post) s =
     ebind (backward post s) (\<lambda>s1. ebind (bwd_gate g s1) (backward pre))"
proof -
  have "efold bwd_gate (g # rev pre) = (\<lambda>a. ebind (bwd_gate g a) (efold bwd_gate (rev pre)))"
    by (rule ext) simp
  then show ?thesis
    unfolding backward_def by (simp add: efold_append)
qed

lemma case_one:
  "length xs \<noteq> 1 \<Longrightarrow> (case xs of [] \<Rightarrow> d | [k] \<Rightarrow> f k | k # l # r \<Rightarrow> d) = d"
  by (auto split: list.splits)

lemma co_in_no_write:
  assumes "\<not> writes_co t ins j"
  shows "co_in t out ins j s = Inr s"
  using assms by (auto simp: writes_co_def co_in_def case_one)

lemma co_in_write:
  assumes "writes_co t ins j"
  shows "co_in t out ins j s =
     ebind (dict_get (CO s) out) (\<lambda>c.
     ebind (co_term t ins j s) (\<lambda>v. Inr (set_CO j (c + v + 1) s)))"
proof (cases "t = ''AND'' \<or> t = ''NAND''")
  case True
  then show ?thesis by (auto simp: co_in_def co_term_def)
next
  case A: False
  show ?thesis
  proof (cases "t = ''OR'' \<or> t = ''NOR''")
    case True
    with A show ?thesis by (auto simp: co_in_def co_term_def)
  next
    case B: False
    show ?thesis
    proof (cases "t = ''XOR'' \<or> t = ''XNOR''")
      case True
      with assms obtain k where k: "other_ins ins j = [k]"
        by (cases "other_ins ins j"; cases "tl (other_ins ins j)") (auto simp: writes_co_def)
      have "co_in t out ins j s = ebind (dict_get (CO s) out) (\<lambda>c.
            ebind (dict_get (CC0 s) k) (\<lambda>x.
            ebind (dict_get (CC1 s) k) (\<lambda>y. Inr (set_CO j (c + min x y + 1) s))))"
        using A B True by (simp add: co_in_def k)
      moreover have "co_term t ins j s =
            ebind (dict_get (CC0 s) k) (\<lambda>x. ebind (dict_get (CC1 s) k) (\<lambda>y. Inr (min x y)))"
        using A B True by (simp add: co_term_def k first_in_def)
      ultimately show ?thesis
        by (simp add: ebind_def split: sum.splits)
    next
      case False
      with A B show ?thesis by (simp add: co_in_def co_term_def)
    qed
  qed
qed

lemma bwd_in_keeps:
  assumes "bwd_in t out ins i s = Inr s'" and "i \<noteq> j \<or> \<not> writes_co t ins i"
  shows "map_of (CO s') j = map_of (CO s) j"
proof -
  from assms(1) obtain s1 where s1: "co_in t out ins i s = Inr s1"
    and s': "s' = set_bkwd i (bkwd_get (bkwd_level s1) out + 1) s1"
    by (auto simp: bwd_in_def ebind_eq_Inr)
  have "map_of (CO s1) j = map_of (CO s) j"
  proof (cases "writes_co t ins i")
    case True
    with assms(2) have "i \<noteq> j" by simp
    with co_in_shape [OF s1] show ?thesis by (auto simp: set_CO_def map_of_dict_set)
  next
    case False
    from s1 co_in_no_write [OF False, of out s] show ?thesis by simp
  qed
  then show ?thesis by (simp add: s' set_bkwd_def)
qed

lemma bwd_ins_keep:
  assumes "efold (bwd_in t out ins) ys s = Inr s'"
    and "j \<notin> set ys \<or> \<not> writes_co t ins j"
  shows "map_of (CO s') j = map_of (CO s) j"
proof (rule efold_inv [OF assms(1), where P = "\<lambda>a. map_of (CO a) j = map_of (CO s) j"])
  show "map_of (CO s) j = map_of (CO s) j" ..
next
  fix i a b
  assume "i \<in> set ys" and a: "map_of (CO a) j = map_of (CO s) j"
    and b: "bwd_in t out ins i a = Inr b"
  with assms(2) have "i \<noteq> j \<or> \<not> writes_co t ins i" by auto
  from bwd_in_keeps [OF b this] a show "map_of (CO b) j = map_of (CO s) j" by simp
qed

lemma bwd_gate_keeps:
  assumes "bwd_gate g s = Inr s'"
    and "j \<notin> set (gate_ins g) \<or> \<not> dict_has (CO s) (gate_out g) \<or>
         \<not> writes_co (gate_kind g) (gate_ins g) j"
  shows "map_of (CO s') j = map_of (CO s) j"
proof -
  obtain t out ins nm where g: "g = (t, out, ins, nm)" by (cases g) auto
  show ?thesis
  proof (cases "dict_has (CO s) out")
    case True
    with assms(1) have run: "efold (bwd_in t out ins) ins s = Inr s'"
      by (simp add: bwd_gate_def g)
    from assms(2) True have "j \<notin> set ins \<or> \<not> writes_co t ins j"
      by (simp add: g gate_ins_def gate_out_def gate_kind_def)
    with run show ?thesis by (rule bwd_ins_keep)
  next
    case False
    with assms(1) show ?thesis by (simp add: bwd_gate_def g)
  qed
qed

lemma no_write_keeps:
  "no_write j gs s \<Longrightarrow> efold bwd_gate gs s = Inr s' \<Longrightarrow> map_of (CO s') j = map_of (CO s) j"
proof (induction gs arbitrary: s)
  case Nil
  then show ?case by simp
next
  case (Cons g gs)
  from Cons.prems(2) obtain a where a: "bwd_gate g s = Inr a" and rest: "efold bwd_gate gs a = Inr s'"
    by (auto simp: ebind_eq_Inr)
  from Cons.prems(1) a have q: "no_write j gs a"
    and c: "j \<notin> set (gate_ins g) \<or> \<not> dict_has (CO s) (gate_out g) \<or>
         \<not> writes_co (gate_kind g) (gate_ins g) j"
    by simp_all
  from Cons.IH [OF q rest] bwd_gate_keeps [OF a c] show ?case by simp
qed

lemma bwd_in_writes:
  assumes "bwd_in t out ins j s = Inr s'" and "writes_co t ins j"
  shows "\<exists>c v. dict_get (CO s) out = Inr c \<and> co_term t ins j s = Inr v \<and>
           map_of (CO s') j = Some (c + v + 1)"
  using assms(1) unfolding bwd_in_def co_in_write [OF assms(2)]
  by (auto simp: ebind_eq_Inr setter_defs map_of_dict_set)

text \<open>
  What holds of the sweep: the gates are processed in the exact reverse of the given
  order, and the final CO entry of a net \<open>j\<close> is the value written by the last gate
  processed that lists \<open>j\<close> among its inputs, has a CO value on its output when it is
  reached and takes a branch that assigns (every branch but XOR/XNOR with a number of
  other inputs different from 1). That value is CO[out] plus the term of the gate type
  plus 1, read when the last occurrence of \<open>j\<close> in the input list is processed; an earlier
  value of CO[j] does not enter it.

  Here the gate is \<open>(t, out, ins, nm)\<close>, the gates \<open>post\<close> after it are processed before it
  and lead to the state \<open>s1\<close>; \<open>xs\<close> are the inputs before the last occurrence of \<open>j\<close>,
  processed up to the state \<open>sa\<close>; the gate leaves the state \<open>s2\<close>, from which the gates
  \<open>pre\<close> are processed in reverse.
\<close>

lemma last_writer_wins:
  assumes "backward (pre @ (t, out, ins, nm) # post) s = Inr sf"
    and "backward post s = Inr s1"
    and "dict_has (CO s1) out"
    and "ins = xs @ j # ys" and "j \<notin> set ys"
    and "efold (bwd_in t out ins) xs s1 = Inr sa"
    and "writes_co t ins j"
    and "bwd_gate (t, out, ins, nm) s1 = Inr s2"
    and "no_write j (rev pre) s2"
  shows "backward pre s2 = Inr sf \<and>
         (\<exists>c v. dict_get (CO sa) out = Inr c \<and> co_term t ins j sa = Inr v \<and>
            map_of (CO sf) j = Some (c + v + 1))"
proof -
  from assms(1,2,8) have rest: "backward pre s2 = Inr sf"
    by (simp add: backward_split)
  then have 1: "map_of (CO sf) j = map_of (CO s2) j"
    using no_write_keeps [OF assms(9)] by (simp add: backward_def)
  from assms(3,8) have "efold (bwd_in t out ins) (xs @ j # ys) s1 = Inr s2"
    by (simp add: bwd_gate_def assms(4) [symmetric])
  with assms(6) obtain sb where sb: "bwd_in t out ins j sa = Inr sb"
    and ys: "efold (bwd_in t out ins) ys sb = Inr s2"
    by (auto simp: efold_append ebind_eq_Inr)
  from bwd_ins_keep [OF ys] assms(5) have 2: "map_of (CO s2) j = map_of (CO sb) j" by simp
  from bwd_in_writes [OF sb assms(7)] 1 2 rest show ?thesis by auto
qed

lemma fanout_forward:
  "ebind (forward [(''XOR'', ''y1'', [''n'', ''b'', ''c''], ''g1''),
                   (''AND'', ''y2'', [''n'', ''b''], ''g2'')]
            (seed_seq [] (seed_inputs [''n'', ''b'', ''c''] init)))
     (\<lambda>s3. Inr (seed_outputs [''y1'', ''y2''] s3)) = Inr fanout_s0"
  by code_simp

lemma fanout_and: "bwd_gate (''AND'', ''y2'', [''n'', ''b''], ''g2'') fanout_s0 = Inr fanout_s1"
  by code_simp

lemma fanout_xor: "bwd_gate (''XOR'', ''y1'', [''n'', ''b'', ''c''], ''g1'') fanout_s1 = Inr fanout_s2"
  by code_simp

lemma fanout_backward:
  "backward [(''XOR'', ''y1'', [''n'', ''b'', ''c''], ''g1''), (''AND'', ''y2'', [''n'', ''b''], ''g2'')]
     fanout_s0 = Inr fanout_s2"
  by code_simp

lemma last_writer_wins_fanout:
  "backward [(''XOR'', ''y1'', [''n'', ''b'', ''c''], ''g1'')] fanout_s1 = Inr fanout_s2 \<and>
   (\<exists>c v. dict_get (CO fanout_s0) ''y2'' = Inr c \<and>
      co_term ''AND'' [''n'', ''b''] ''n'' fanout_s0 = Inr v \<and>
      map_of (CO fanout_s2) ''n'' = Some (c + v + 1))"
proof -
  have h1: "backward ([(''XOR'', ''y1'', [''n'', ''b'', ''c''], ''g1'')] @
      (''AND'', ''y2'', [''n'', ''b''], ''g2'') # []) fanout_s0 = Inr fanout_s2"
    using fanout_backward by simp
  have h2: "backward [] fanout_s0 = Inr fanout_s0" by (simp add: backward_def)
  have h3: "dict_has (CO fanout_s0) ''y2''" by code_simp
  have h4: "[''n'', ''b''] = [] @ ''n'' # [''b'']" by simp
  have h5: "''n'' \<notin> set [''b'']" by simp
  have h6: "efold (bwd_in ''AND'' ''y2'' [''n'', ''b'']) [] fanout_s0 = Inr fanout_s0" by simp
  have h7: "writes_co ''AND'' [''n'', ''b''] ''n''" by (simp add: writes_co_def)
  have h9: "no_write ''n'' (rev [(''XOR'', ''y1'', [''n'', ''b'', ''c''], ''g1'')]) fanout_s1"
    by (simp add: writes_co_def gate_kind_def gate_ins_def other_ins_def fanout_xor)
  from last_writer_wins [OF h1 h2 h3 h4 h5 h6 h7 fanout_and h9] show ?thesis .
qed

text \<open>
  Two assigning gates on one net: the AND gate is processed first and writes
  CO[n] = 0 + CC1[b] + 1 = 2, the OR gate is processed last and overwrites it with
  CO[n] = 0 + CC0[c] + CC0[d] + 1 = 3. The result holds 3, not the minimum.
\<close>

lemma last_writer_overwrites:
  "scoap [''n'', ''b'', ''c'', ''d''] [''y1'', ''y2'']
     [(''OR'', ''y2'', [''n'', ''c'', ''d''], ''g2''), (''AND'', ''y1'', [''n'', ''b''], ''g1'')] [] =
   Inr \<lparr>CC0 = [(''n'', 1), (''b'', 1), (''c'', 1), (''d'', 1), (''y2'', 4), (''y1'', 2)],
        CC1 = [(''n'', 1), (''b'', 1), (''c'', 1), (''d'', 1), (''y2'', 2), (''y1'', 3)],
        CO = [(''y1'', 0), (''y2'', 0), (''n'', 3), (''b'', 2), (''c'', 3), (''d'', 3)],
        SC0 = [(''y1'', Fin 2), (''y2'', Fin 4), (''n'', Fin 4), (''b'', Fin 3), (''c'', Fin 4),
               (''d'', Fin 4)],
        SC1 = [(''y1'', Fin 3), (''y2'', Fin 2), (''n'', Fin 4), (''b'', Fin 3), (''c'', Fin 4),
               (''d'', Fin 4)],
        SO = [(''y1'', Fin 0), (''y2'', Fin 0), (''n'', Fin 3), (''b'', Fin 2), (''c'', Fin 3),
              (''d'', Fin 3)],
        fwd_level = [(''n'', 0), (''b'', 0), (''c'', 0), (''d'', 0), (''y2'', 1), (''y1'', 1)],
        bkwd_level = [(''y1'', 0), (''y2'', 0), (''n'', 1), (''b'', 1), (''c'', 1), (''d'', 1)]\<rparr>"
  by code_simp

text \<open>
  Claim C5: the final CO entry of a net is the contribution of the consuming gate
  processed last in the reverse order, each gate overwriting what was there. By the
  table of the backward sweep an XOR or XNOR gate with a number of other inputs
  different from 1 contributes CO(out) + 1, as a gate of any other type does. In the
  source the \<open>else\<close> of line 90 belongs to the chain on the gate type, so the XOR/XNOR
  branch has no assignment for that case, while \<open>bkwd_level[j]\<close> is still assigned.

  On the netlist with inputs \<open>n\<close>, \<open>b\<close>, \<open>c\<close>, outputs \<open>y1\<close>, \<open>y2\<close> and the gates
  \<open>("XOR", "y1", ["n", "b", "c"], "g1")\<close>, \<open>("AND", "y2", ["n", "b"], "g2")\<close> both gates
  consume \<open>n\<close> and both outputs have CO values. The XOR gate is processed last; by the
  table it contributes CO(y1) + 0 + 1 = 1, but it assigns nothing: the CO map is the same
  before and after it, and the analysis returns CO[n] = 2, the value 0 + CC1[b] + 1 that
  the AND gate wrote before.
\<close>

theorem last_consumer_may_write_nothing:
  "scoap [''n'', ''b'', ''c''] [''y1'', ''y2'']
     [(''XOR'', ''y1'', [''n'', ''b'', ''c''], ''g1''), (''AND'', ''y2'', [''n'', ''b''], ''g2'')] []
     = Inr (derive fanout_s2) \<and>
   bwd_gate (''AND'', ''y2'', [''n'', ''b''], ''g2'') fanout_s0 = Inr fanout_s1 \<and>
   map_of (CO fanout_s1) ''n'' = Some 2 \<and>
   dict_get (CO fanout_s1) ''y1'' = Inr 0 \<and>
   table_co_term ''XOR'' [''n'', ''b'', ''c''] ''n'' fanout_s1 = Inr 0 \<and>
   bwd_gate (''XOR'', ''y1'', [''n'', ''b'', ''c''], ''g1'') fanout_s1 = Inr fanout_s2 \<and>
   CO fanout_s2 = CO fanout_s1 \<and>
   map_of (bkwd_level fanout_s2) ''c'' = Some 1 \<and>
   map_of (CO (derive fanout_s2)) ''n'' = Some 2"
  by code_simp

subsection \<open>AND gates against NAND gates\<close>









lemma dict_get_cong: "map_of d k = map_of d' k \<Longrightarrow> dict_get d k = dict_get d' k"
  by (simp add: dict_get_def)


























end
